theory Spec2Isabelle
  imports Complex_Main "HOL-Library.Word" "HOL-Library.Char_ord" "HOL-Library.Log_Nat"
    "HOL-Library.Signed_Division"
begin

section \<open>Machine integers, strings and errors\<close>

text \<open>
  Go's \<open>uint64\<close> and \<open>int64\<close> (\<open>time.Duration\<close>) are 64-bit words: \<open>+\<close>, \<open>-\<close> and \<open>*\<close>
  wrap around, \<open>unat\<close> reads a word as unsigned and \<open>sint\<close> as two's complement. A Go
  \<open>string\<close> is its sequence of bytes, so the micro sign U+00B5 is the two bytes
  \<open>0xC2 0xB5\<close> and the Greek mu U+03BC is \<open>0xCE 0xBC\<close>.
\<close>

type_synonym uint64 = "64 word"
type_synonym Duration = "64 word"

text \<open>
  Go's \<open>/\<close> and \<open>%\<close> on \<open>int64\<close> truncate towards zero; the quotient wraps in the one
  case \<open>MinInt64 / -1\<close>.
\<close>

definition quo :: "Duration \<Rightarrow> Duration \<Rightarrow> Duration" where
  "quo a b = word_of_int (sint a sdiv sint b)"

definition rem :: "Duration \<Rightarrow> Duration \<Rightarrow> Duration" where
  "rem a b = word_of_int (sint a smod sint b)"

abbreviation Nanosecond :: Duration where "Nanosecond \<equiv> 1"
abbreviation Microsecond :: Duration where "Microsecond \<equiv> 1000"
abbreviation Millisecond :: Duration where "Millisecond \<equiv> 1000000"
abbreviation Second :: Duration where "Second \<equiv> 1000000000"
abbreviation Minute :: Duration where "Minute \<equiv> 60000000000"
abbreviation Hour :: Duration where "Hour \<equiv> 3600000000000"
abbreviation day :: Duration where "day \<equiv> 86400000000000"

text \<open>
  The errors of the package. \<open>InvalidDuration orig\<close> stands for
  \<open>errors.New("time: invalid duration " + quote(orig))\<close>, \<open>MissingUnit orig\<close> for
  \<open>"time: missing unit in duration " + quote(orig)\<close> and \<open>UnknownUnit u orig\<close> for
  \<open>"time: unknown unit " + quote(u) + " in duration " + quote(orig)\<close>; the constructors
  carry the strings that \<open>quote\<close> renders. \<open>TimeParseError\<close> is the error of the
  standard library's \<open>time.Parse\<close>, with the layout and the rejected value.
\<close>

datatype error =
    errLeadingInt
  | InvalidDuration string
  | MissingUnit string
  | UnknownUnit string string
  | errNoTimeSpecified
  | TimeParseError string string

section \<open>Numeric lexer\<close>

text \<open>\<open>leadingInt\<close> consumes the leading \<open>[0-9]*\<close> from \<open>s\<close>; the loop carries \<open>x\<close>.\<close>

fun leadingInt_loop :: "uint64 \<Rightarrow> string \<Rightarrow> error + (uint64 \<times> string)" where
  "leadingInt_loop x [] = Inr (x, [])"
| "leadingInt_loop x (c # s) =
     (if c < CHR ''0'' \<or> c > CHR ''9'' then Inr (x, c # s)
      else if x > 2 ^ 63 div 10 then Inl errLeadingInt
      else let x' = x * 10 + of_char c - 48
           in if x' > 2 ^ 63 then Inl errLeadingInt
              else leadingInt_loop x' s)"

definition leadingInt :: "string \<Rightarrow> error + (uint64 \<times> string)" where
  "leadingInt s = leadingInt_loop 0 s"

section \<open>The float64 values of the parser\<close>

text \<open>
  The parser computes \<open>float64(f) * (float64(unit) / scale)\<close> and \<open>scale *= 10\<close> in IEEE 754
  binary64 with round to nearest, ties to even. Every operand is the image of an unsigned
  integer or a product of tens, so only the non-negative values are modelled: a finite
  value is the rational it denotes, and the other values are \<open>+Inf\<close> and \<open>NaN\<close>.
\<close>

datatype float64 = Fin rat | PInf | NaN

definition pow2 :: "int \<Rightarrow> rat" where
  "pow2 k = (if 0 \<le> k then 2 ^ nat k else 1 / 2 ^ nat (- k))"

text \<open>The exponent \<open>e\<close> with \<open>2^e \<le> x < 2^(e+1)\<close>, for \<open>x > 0\<close>.\<close>

definition ilog2 :: "rat \<Rightarrow> int" where
  "ilog2 x = (if 1 \<le> x then int (floorlog 2 (nat \<lfloor>x\<rfloor>)) - 1
              else - int (floorlog 2 (nat (\<lceil>1 / x\<rceil> - 1))))"

definition round_half_even :: "rat \<Rightarrow> int" where
  "round_half_even y =
     (let n = \<lfloor>y\<rfloor>; r = y - of_int n
      in if r < 1 / 2 then n
         else if 1 / 2 < r then n + 1
         else if even n then n else n + 1)"

text \<open>
  Rounding a non-negative rational to binary64: 53 significant bits, the unit in the last
  place never below \<open>2^-1074\<close> (subnormals), and \<open>+Inf\<close> once the rounded value reaches
  \<open>2^1024\<close>.
\<close>

definition round64 :: "rat \<Rightarrow> float64" where
  "round64 x =
     (if x < 0 then NaN
      else if x = 0 then Fin 0
      else let q = max (ilog2 x - 52) (- 1074);
               r = of_int (round_half_even (x / pow2 q)) * pow2 q
           in if pow2 1024 \<le> r then PInf else Fin r)"

definition f64_of_uint64 :: "uint64 \<Rightarrow> float64" where
  "f64_of_uint64 w = round64 (of_nat (unat w))"

fun f64_mul :: "float64 \<Rightarrow> float64 \<Rightarrow> float64" where
  "f64_mul (Fin a) (Fin b) = round64 (a * b)"
| "f64_mul (Fin a) PInf = (if a = 0 then NaN else PInf)"
| "f64_mul PInf (Fin b) = (if b = 0 then NaN else PInf)"
| "f64_mul PInf PInf = PInf"
| "f64_mul _ _ = NaN"

fun f64_div :: "float64 \<Rightarrow> float64 \<Rightarrow> float64" where
  "f64_div (Fin a) (Fin b) =
     (if b = 0 then (if a = 0 then NaN else PInf) else round64 (a / b))"
| "f64_div (Fin a) PInf = Fin 0"
| "f64_div PInf (Fin b) = PInf"
| "f64_div _ _ = NaN"

text \<open>
  The conversion \<open>uint64(x)\<close> of a float64 truncates towards zero. Go leaves the result
  open when the value does not fit; the model takes \<open>0x8000000000000000\<close> there, as amd64
  does.
\<close>

fun uint64_of_f64 :: "float64 \<Rightarrow> uint64" where
  "uint64_of_f64 (Fin a) = (if a < 2 ^ 64 then word_of_int \<lfloor>a\<rfloor> else 2 ^ 63)"
| "uint64_of_f64 _ = 2 ^ 63"

text \<open>
  \<open>leadingFraction\<close> consumes the leading \<open>[0-9]*\<close> from \<open>s\<close>; the loop carries \<open>x\<close>,
  \<open>scale\<close> and \<open>overflow\<close>.
\<close>

fun leadingFraction_loop ::
  "uint64 \<Rightarrow> float64 \<Rightarrow> bool \<Rightarrow> string \<Rightarrow> uint64 \<times> float64 \<times> string" where
  "leadingFraction_loop x scale overflow [] = (x, scale, [])"
| "leadingFraction_loop x scale overflow (c # s) =
     (if c < CHR ''0'' \<or> c > CHR ''9'' then (x, scale, c # s)
      else if overflow then leadingFraction_loop x scale overflow s
      else if x > (2 ^ 63 - 1) div 10 then leadingFraction_loop x scale True s
      else let y = x * 10 + of_char c - 48
           in if y > 2 ^ 63 then leadingFraction_loop x scale True s
              else leadingFraction_loop y (f64_mul scale (Fin 10)) overflow s)"

definition leadingFraction :: "string \<Rightarrow> uint64 \<times> float64 \<times> string" where
  "leadingFraction s = leadingFraction_loop 0 (Fin 1) False s"

section \<open>Duration grammar parser\<close>

definition unitMap :: "string \<rightharpoonup> uint64" where
  "unitMap = map_of
     [(''ns'', Nanosecond),
      (''us'', Microsecond),
      ([CHR 0xC2, CHR 0xB5, CHR ''s''], Microsecond),
      ([CHR 0xCE, CHR 0xBC, CHR ''s''], Microsecond),
      (''ms'', Millisecond),
      (''s'', Second),
      (''m'', Minute),
      (''h'', Hour),
      (''d'', Hour * 24),
      (''w'', Hour * 24 * 7)]"

text \<open>The index of the first \<open>.\<close> or digit of \<open>s\<close>, or its length: where the unit ends.\<close>

fun unitEnd :: "string \<Rightarrow> nat" where
  "unitEnd [] = 0"
| "unitEnd (c # s) =
     (if c = CHR ''.'' \<or> (CHR ''0'' \<le> c \<and> c \<le> CHR ''9'') then 0 else Suc (unitEnd s))"

text \<open>
  The blocks of one round of the loop of \<open>ParseDuration\<close>. \<open>consumeFraction\<close> is
  "Consume (\.[0-9]*)?": it yields \<open>f\<close>, \<open>scale\<close>, the rest of the input and \<open>post\<close>.
\<close>

definition consumeFraction :: "string \<Rightarrow> uint64 \<times> float64 \<times> string \<times> bool" where
  "consumeFraction s =
     (case s of
        [] \<Rightarrow> (0, Fin 1, s, False)
      | c # t \<Rightarrow>
          if c = CHR ''.''
          then (case leadingFraction t of (f, scale, r) \<Rightarrow> (f, scale, r, length t \<noteq> length r))
          else (0, Fin 1, s, False))"

text \<open>
  \<open>scaleToken\<close> is the arithmetic of the round: \<open>v *= unit\<close> behind its bound check, and
  the fraction added in float64 when \<open>f > 0\<close>.
\<close>

definition scaleToken ::
  "string \<Rightarrow> uint64 \<Rightarrow> uint64 \<Rightarrow> float64 \<Rightarrow> uint64 \<Rightarrow> error + uint64" where
  "scaleToken orig v f scale unit =
     (if v > 2 ^ 63 div unit then Inl (InvalidDuration orig)
      else if f > 0
      then (let v' = v * unit + uint64_of_f64
                       (f64_mul (f64_of_uint64 f) (f64_div (f64_of_uint64 unit) scale))
            in if v' > 2 ^ 63 then Inl (InvalidDuration orig) else Inr v')
      else Inr (v * unit))"

text \<open>
  One round of the loop up to \<open>d += v\<close>: the value of the next token and the rest of the
  input.
\<close>

definition parseToken :: "string \<Rightarrow> string \<Rightarrow> error + (uint64 \<times> string)" where
  "parseToken orig s =
     (case s of
        [] \<Rightarrow> Inl (InvalidDuration orig)
      | c # _ \<Rightarrow>
          if \<not> (c = CHR ''.'' \<or> (CHR ''0'' \<le> c \<and> c \<le> CHR ''9''))
          then Inl (InvalidDuration orig)
          else
            (case leadingInt s of
               Inl err \<Rightarrow> Inl (InvalidDuration orig)
             | Inr (v, s1) \<Rightarrow>
                 (case consumeFraction s1 of
                    (f, scale, s2, post) \<Rightarrow>
                      if \<not> (length s \<noteq> length s1) \<and> \<not> post then Inl (InvalidDuration orig)
                      else if unitEnd s2 = 0 then Inl (MissingUnit orig)
                      else
                        (case unitMap (take (unitEnd s2) s2) of
                           None \<Rightarrow> Inl (UnknownUnit (take (unitEnd s2) s2) orig)
                         | Some unit \<Rightarrow>
                             (case scaleToken orig v f scale unit of
                                Inl e \<Rightarrow> Inl e
                              | Inr v' \<Rightarrow> Inr (v', drop (unitEnd s2) s2))))))"

text \<open>Every token takes at least its unit from the input, so the loop ends.\<close>

lemma leadingInt_loop_length:
  "leadingInt_loop x s = Inr (v, r) \<Longrightarrow> length r \<le> length s"
proof (induction s arbitrary: x)
  case Nil
  then show ?case by simp
next
  case (Cons c s)
  then show ?case
    by (fastforce simp: Let_def le_Suc_eq split: if_splits)
qed

lemma leadingFraction_loop_length:
  "leadingFraction_loop x sc ov s = (f, sc', r) \<Longrightarrow> length r \<le> length s"
proof (induction s arbitrary: x sc ov)
  case Nil
  then show ?case by simp
next
  case (Cons c s)
  then show ?case
    by (fastforce simp: Let_def le_Suc_eq split: if_splits)
qed

lemma consumeFraction_length:
  "consumeFraction s = (f, sc, r, post) \<Longrightarrow> length r \<le> length s"
  by (auto simp: consumeFraction_def leadingFraction_def le_Suc_eq
      split: list.splits if_splits prod.splits dest: leadingFraction_loop_length)

lemma parseToken_length:
  assumes "parseToken orig s = Inr (v, r)"
  shows "length r < length s"
proof -
  from assms obtain w s1 f sc s2 post where
    li: "leadingInt s = Inr (w, s1)" and
    cf: "consumeFraction s1 = (f, sc, s2, post)" and
    ue: "unitEnd s2 \<noteq> 0" and
    r: "r = drop (unitEnd s2) s2"
    by (auto simp: parseToken_def split: list.splits if_splits sum.splits prod.splits option.splits)
  from li have "length s1 \<le> length s"
    by (simp add: leadingInt_def leadingInt_loop_length)
  moreover from cf have "length s2 \<le> length s1"
    by (rule consumeFraction_length)
  moreover from ue have "s2 \<noteq> []"
    by auto
  ultimately show ?thesis
    using ue r by (cases s2) auto
qed

function ParseDuration_loop :: "string \<Rightarrow> string \<Rightarrow> uint64 \<Rightarrow> error + uint64" where
  "ParseDuration_loop orig s d =
     (if s = [] then Inr d
      else (case parseToken orig s of
              Inl e \<Rightarrow> Inl e
            | Inr (v, s') \<Rightarrow>
                if d + v > 2 ^ 63 then Inl (InvalidDuration orig)
                else ParseDuration_loop orig s' (d + v)))"
  by pat_completeness auto
termination
  by (relation "measure (\<lambda>(orig, s, d). length s)") (auto dest: parseToken_length)

text \<open>"Consume [-+]?": the sign and the input behind it.\<close>

declare ParseDuration_loop.simps [simp del]

definition consumeSign :: "string \<Rightarrow> bool \<times> string" where
  "consumeSign s =
     (case s of
        [] \<Rightarrow> (False, s)
      | c # t \<Rightarrow> if c = CHR ''-'' \<or> c = CHR ''+'' then (c = CHR ''-'', t) else (False, s))"

definition ParseDuration :: "string \<Rightarrow> error + Duration" where
  "ParseDuration orig =
     (case consumeSign orig of
        (neg, s) \<Rightarrow>
          if s = ''0'' then Inr 0
          else if s = [] then Inl (InvalidDuration orig)
          else (case ParseDuration_loop orig s 0 of
                  Inl e \<Rightarrow> Inl e
                | Inr d \<Rightarrow>
                    if neg then Inr (- d)
                    else if d > 2 ^ 63 - 1 then Inl (InvalidDuration orig)
                    else Inr d))"

section \<open>Duration formatter\<close>

text \<open>
  \<open>fmt.Sprintf("%d", v)\<close> of an \<open>int64\<close>: the decimal digits of the magnitude, behind a
  minus sign when \<open>v\<close> is negative.
\<close>

fun decimal :: "nat \<Rightarrow> string" where
  "decimal n =
     (if n < 10 then [char_of (48 + n)]
      else decimal (n div 10) @ [char_of (48 + n mod 10)])"

declare decimal.simps [simp del]

definition Sprintf_d :: "Duration \<Rightarrow> string" where
  "Sprintf_d v =
     (if sint v < 0 then CHR ''-'' # decimal (nat (- sint v)) else decimal (nat (sint v)))"

definition formatHigh :: "Duration \<Rightarrow> string" where
  "formatHigh d0 =
     (let f = [];
          d = quo d0 Second;
          v = rem d 60;
          f = (if v \<noteq> 0 then Sprintf_d v @ ''s'' @ f else f);
          d = quo d 60;
          v = rem d 60;
          f = (if v \<noteq> 0 then Sprintf_d v @ ''m'' @ f else f);
          d = quo d 60;
          v = rem d 24;
          f = (if v \<noteq> 0 then Sprintf_d v @ ''h'' @ f else f);
          d = quo d 24;
          f = (if 0 <s d then Sprintf_d d @ ''d'' @ f else f)
      in f)"

definition formatLow :: "Duration \<Rightarrow> string" where
  "formatLow d0 =
     (let f = [];
          d = rem d0 Second;
          v = rem d 1000;
          f = (if v \<noteq> 0 then Sprintf_d v @ ''ns'' @ f else f);
          d = quo d 1000;
          v = rem d 1000;
          f = (if v \<noteq> 0 then Sprintf_d v @ [CHR 0xC2, CHR 0xB5, CHR ''s''] @ f else f);
          d = quo d 1000;
          f = (if 0 <s d then Sprintf_d d @ ''ms'' @ f else f)
      in f)"

definition FormatDuration :: "Duration \<Rightarrow> string" where
  "FormatDuration d = (if d = 0 then ''0s'' else formatHigh d @ formatLow d)"

text \<open>\<open>Duration.Truncate\<close> of the standard library: \<open>d - d % m\<close>, and \<open>d\<close> when \<open>m \<le> 0\<close>.\<close>

definition Duration_Truncate :: "Duration \<Rightarrow> Duration \<Rightarrow> Duration" where
  "Duration_Truncate d m = (if m \<le>s 0 then d else d - rem d m)"

definition FormatSimplifiedDuration :: "Duration \<Rightarrow> string" where
  "FormatSimplifiedDuration d =
     (if Hour * 24 <s d
      then Sprintf_d (quo (Duration_Truncate d (Hour * 24)) (Hour * 24)) @ ''d '' @
           Sprintf_d (quo (rem d (Hour * 24)) Hour) @ ''h''
      else if Hour <s d
      then Sprintf_d (quo (Duration_Truncate d Hour) Hour) @ ''h''
      else if Minute <s d
      then Sprintf_d (quo (Duration_Truncate d Minute) Minute) @ ''m''
      else if Second <s d
      then Sprintf_d (quo (Duration_Truncate d Second) Second) @ ''s''
      else if Millisecond <s d
      then Sprintf_d (quo (Duration_Truncate d Millisecond) Millisecond) @ ''ms''
      else if Microsecond <s d
      then Sprintf_d (quo (Duration_Truncate d Microsecond) Microsecond) @
           [CHR 0xC2, CHR 0xB5, CHR ''s'']
      else Sprintf_d d @ ''ns'')"

section \<open>Expression dispatcher\<close>

text \<open>
  A \<open>time.Time\<close> of the standard library is an instant and a location. The instant is
  its count of nanoseconds since the zero time, January 1 of year 1, 00:00:00 UTC; the
  location is modelled for fixed zones (\<open>time.UTC\<close>, \<open>time.FixedZone\<close>) by its offset in
  seconds east of UTC.
\<close>

record Time =
  abs_ns :: int
  zone_offset :: int

text \<open>
  \<open>Time.Truncate\<close> rounds the instant down to a multiple of \<open>d\<close> since the zero time and
  returns \<open>t\<close> when \<open>d \<le> 0\<close>; \<open>Time.Add\<close> moves the instant by a duration. In a fixed
  zone \<open>t.AddDate(0, 0, n)\<close> is the same wall clock \<open>n\<close> calendar days later, \<open>24 n\<close> hours
  after \<open>t\<close>.
\<close>

definition Time_Truncate :: "Time \<Rightarrow> Duration \<Rightarrow> Time" where
  "Time_Truncate t d =
     (if sint d \<le> 0 then t else t\<lparr>abs_ns := abs_ns t - abs_ns t mod sint d\<rparr>)"

definition Time_Add :: "Time \<Rightarrow> Duration \<Rightarrow> Time" where
  "Time_Add t d = t\<lparr>abs_ns := abs_ns t + sint d\<rparr>"

definition Time_AddDate_days :: "Time \<Rightarrow> int \<Rightarrow> Time" where
  "Time_AddDate_days t n = t\<lparr>abs_ns := abs_ns t + n * sint (Hour * 24)\<rparr>"

text \<open>
  \<open>strings.TrimSpace\<close> removes the leading and trailing white space of Unicode. These are
  the UTF-8 encodings of the characters with the property White_Space: the six ASCII
  ones, U+0085, U+00A0, U+1680, U+2000 to U+200A, U+2028, U+2029, U+202F, U+205F and
  U+3000.
\<close>

definition whiteSpace :: "string list" where
  "whiteSpace =
     [[CHR 0x09], [CHR 0x0A], [CHR 0x0B], [CHR 0x0C], [CHR 0x0D], [CHR 0x20],
      [CHR 0xC2, CHR 0x85], [CHR 0xC2, CHR 0xA0], [CHR 0xE1, CHR 0x9A, CHR 0x80],
      [CHR 0xE2, CHR 0x80, CHR 0x80], [CHR 0xE2, CHR 0x80, CHR 0x81],
      [CHR 0xE2, CHR 0x80, CHR 0x82], [CHR 0xE2, CHR 0x80, CHR 0x83],
      [CHR 0xE2, CHR 0x80, CHR 0x84], [CHR 0xE2, CHR 0x80, CHR 0x85],
      [CHR 0xE2, CHR 0x80, CHR 0x86], [CHR 0xE2, CHR 0x80, CHR 0x87],
      [CHR 0xE2, CHR 0x80, CHR 0x88], [CHR 0xE2, CHR 0x80, CHR 0x89],
      [CHR 0xE2, CHR 0x80, CHR 0x8A], [CHR 0xE2, CHR 0x80, CHR 0xA8],
      [CHR 0xE2, CHR 0x80, CHR 0xA9], [CHR 0xE2, CHR 0x80, CHR 0xAF],
      [CHR 0xE2, CHR 0x81, CHR 0x9F], [CHR 0xE3, CHR 0x80, CHR 0x80]]"

text \<open>The number of bytes of the member of \<open>ps\<close> that \<open>s\<close> starts with, 0 when there is none.\<close>

fun leadWidth :: "string list \<Rightarrow> string \<Rightarrow> nat" where
  "leadWidth [] s = 0"
| "leadWidth (p # ps) s =
     (if p \<noteq> [] \<and> take (length p) s = p then length p else leadWidth ps s)"

lemma leadWidth_le: "leadWidth ps s \<le> length s"
proof (induction ps)
  case Nil
  then show ?case by simp
next
  case (Cons p ps)
  have "take (length p) s = p \<Longrightarrow> length p \<le> length s"
    by (metis length_take min.cobounded1)
  with Cons show ?case by simp
qed

function trimLeft :: "string list \<Rightarrow> string \<Rightarrow> string" where
  "trimLeft ps s = (if leadWidth ps s = 0 then s else trimLeft ps (drop (leadWidth ps s) s))"
  by pat_completeness auto
termination
proof (relation "measure (\<lambda>(ps, s). length s)")
  show "wf (measure (\<lambda>(ps, s). length s))"
    by simp
next
  fix ps :: "string list" and s :: string
  assume "leadWidth ps s \<noteq> 0"
  moreover have "leadWidth ps s \<le> length s"
    by (rule leadWidth_le)
  ultimately show "((ps, drop (leadWidth ps s) s), (ps, s)) \<in> measure (\<lambda>(ps, s). length s)"
    by simp
qed

declare trimLeft.simps [simp del]

definition TrimSpace :: "string \<Rightarrow> string" where
  "TrimSpace s = rev (trimLeft (map rev whiteSpace) (rev (trimLeft whiteSpace s)))"

text \<open>
  The standard library's \<open>time.Parse\<close> and the year that \<open>ref.Format("2006")\<close> prints are
  taken as they are, as parameters of the dispatcher.
\<close>

record timelib =
  time_Parse :: "string \<Rightarrow> string \<Rightarrow> error + Time"
  Format_2006 :: "Time \<Rightarrow> string"

abbreviation formatDate :: string where "formatDate \<equiv> ''2006-01-02''"
abbreviation formatShortDate :: string where "formatShortDate \<equiv> ''01-02''"
abbreviation RFC3339 :: string where "RFC3339 \<equiv> ''2006-01-02T15:04:05Z07:00''"

definition ParseExprRef :: "timelib \<Rightarrow> string \<Rightarrow> Time \<Rightarrow> error + Time" where
  "ParseExprRef lib s ref =
     (let v = TrimSpace s in
      if v = [] then Inl errNoTimeSpecified
      else if v = ''today'' then Inr (Time_Truncate ref (Hour * 24))
      else if v = ''yesterday'' then Inr (Time_AddDate_days (Time_Truncate ref (Hour * 24)) (- 1))
      else if v = ''tomorrow'' then Inr (Time_AddDate_days (Time_Truncate ref (Hour * 24)) 1)
      else if v = ''now'' then Inr ref
      else if take 1 v = ''+'' \<or> take 1 v = ''-''
      then (case ParseDuration v of
              Inl err \<Rightarrow> Inl err
            | Inr d \<Rightarrow> Inr (Time_Add ref d))
      else if length v = length formatShortDate
      then time_Parse lib formatDate (Format_2006 lib ref @ ''-'' @ v)
      else if length v = length formatDate
      then time_Parse lib formatDate v
      else time_Parse lib RFC3339 v)"

text \<open>
  The start of the calendar day of \<open>t\<close> in its own zone: the wall clock of \<open>t\<close> is its
  instant moved by the offset, and the zero time starts a day.
\<close>

definition local_midnight :: "Time \<Rightarrow> Time" where
  "local_midnight t =
     (let wall = abs_ns t + zone_offset t * 1000000000
      in t\<lparr>abs_ns := wall - wall mod 86400000000000 - zone_offset t * 1000000000\<rparr>)"

section \<open>Notions for stating the properties\<close>

text \<open>
  A byte is a digit when it lies between \<open>0\<close> and \<open>9\<close>; \<open>valFrom a ds\<close> is the number that
  the digits \<open>ds\<close> denote behind the leading value \<open>a\<close>, an unbounded natural number.
\<close>

definition isDigit :: "char \<Rightarrow> bool" where
  "isDigit c \<longleftrightarrow> CHR ''0'' \<le> c \<and> c \<le> CHR ''9''"

definition digitVal :: "char \<Rightarrow> nat" where
  "digitVal c = of_char c - 48"

fun valFrom :: "nat \<Rightarrow> string \<Rightarrow> nat" where
  "valFrom a [] = a"
| "valFrom a (c # s) = valFrom (a * 10 + digitVal c) s"

text \<open>
  A component of the canonical form: the decimal digits of \<open>k\<close> and the unit, nothing
  when \<open>k\<close> is zero. \<open>neg_tok\<close> is a component with a minus sign before its digits.
\<close>

definition tok :: "nat \<Rightarrow> string \<Rightarrow> string" where
  "tok k u = (if k = 0 then [] else decimal k @ u)"

definition neg_tok :: "nat \<Rightarrow> string \<Rightarrow> string" where
  "neg_tok k u = (if k = 0 then [] else CHR ''-'' # decimal k @ u)"

text \<open>
  The rest of the input behind a token of the canonical form is empty or starts with a
  digit; the text of a unit is not empty and has no digit and no point.
\<close>

definition startsOK :: "string \<Rightarrow> bool" where
  "startsOK r \<longleftrightarrow> (case r of [] \<Rightarrow> True | c # _ \<Rightarrow> isDigit c)"

definition unitText :: "string \<Rightarrow> bool" where
  "unitText u \<longleftrightarrow> u \<noteq> [] \<and> (\<forall>c \<in> set u. \<not> isDigit c \<and> c \<noteq> CHR ''.'')"

section \<open>The integer lexer against unbounded arithmetic\<close>

lemma isDigit_iff: "isDigit c \<longleftrightarrow> 48 \<le> (of_char c :: nat) \<and> (of_char c :: nat) \<le> 57"
  by (simp add: isDigit_def less_eq_char_def)

lemma not_isDigit_iff: "(c < CHR ''0'' \<or> c > CHR ''9'') \<longleftrightarrow> \<not> isDigit c"
  by (auto simp: isDigit_def)

lemma digitVal_le: "isDigit c \<Longrightarrow> digitVal c \<le> 9"
  unfolding isDigit_iff digitVal_def by arith

lemma valFrom_ge: "a \<le> valFrom a s"
proof (induction s arbitrary: a)
  case Nil
  then show ?case by simp
next
  case (Cons c s)
  have "a \<le> a * 10 + digitVal c" by simp
  also have "\<dots> \<le> valFrom (a * 10 + digitVal c) s" by (rule Cons.IH)
  finally show ?case by simp
qed

lemma valFrom_append: "valFrom a (xs @ ys) = valFrom (valFrom a xs) ys"
  by (induction xs arbitrary: a) simp_all

lemma word_digit_step:
  fixes x :: uint64
  assumes "isDigit c"
  shows "x * 10 + of_char c - 48 = of_nat (unat x * 10 + digitVal c)"
proof -
  have k: "48 \<le> (of_char c :: nat)"
    using assms by (simp add: isDigit_iff)
  have "(of_char c :: uint64) = of_nat (of_char c)"
    by (simp add: of_nat_of_char)
  also have "\<dots> = of_nat (digitVal c + 48)"
    using k by (simp add: digitVal_def)
  finally have "(of_char c :: uint64) = of_nat (digitVal c) + 48"
    by simp
  then show ?thesis
    by simp
qed

lemma unat_of_nat64: "n < 2 ^ 64 \<Longrightarrow> unat (of_nat n :: uint64) = n"
  by (simp add: unat_of_nat)

lemma unat_digit_step:
  fixes x :: uint64
  assumes "isDigit c" and "unat x \<le> 922337203685477580"
  shows "unat (x * 10 + of_char c - 48) = unat x * 10 + digitVal c"
proof -
  have "unat x * 10 + digitVal c < 2 ^ 64"
    using assms digitVal_le [of c] by simp
  then have "unat (of_nat (unat x * 10 + digitVal c) :: uint64) = unat x * 10 + digitVal c"
    by (rule unat_of_nat64)
  then show ?thesis
    by (simp only: word_digit_step [OF assms(1)])
qed

text \<open>
  The loop of \<open>leadingInt\<close> computes the number its digits denote, and fails exactly when
  that number is above \<open>2^63\<close>.
\<close>

lemma leadingInt_loop_spec:
  "unat x \<le> 2 ^ 63 \<Longrightarrow>
   leadingInt_loop x s =
     (if 2 ^ 63 < valFrom (unat x) (takeWhile isDigit s) then Inl errLeadingInt
      else Inr (of_nat (valFrom (unat x) (takeWhile isDigit s)), dropWhile isDigit s))"
proof (induction s arbitrary: x)
  case Nil
  then show ?case by simp
next
  case (Cons c s)
  show ?case
  proof (cases "isDigit c")
    case False
    with Cons.prems show ?thesis
      by (simp add: not_isDigit_iff)
  next
    case dig: True
    show ?thesis
    proof (cases "unat x \<le> 922337203685477580")
      case False
      then have big: "x > 2 ^ 63 div 10"
        by (simp add: word_less_nat_alt)
      have "2 ^ 63 < unat x * 10 + digitVal c"
        using False by simp
      also have "\<dots> \<le> valFrom (unat x * 10 + digitVal c) (takeWhile isDigit s)"
        by (rule valFrom_ge)
      finally show ?thesis
        using dig big by (simp add: not_isDigit_iff)
    next
      case small: True
      then have nbig: "\<not> x > 2 ^ 63 div 10"
        by (simp add: word_less_nat_alt)
      let ?x' = "x * 10 + of_char c - 48"
      have ux': "unat ?x' = unat x * 10 + digitVal c"
        using dig small by (rule unat_digit_step)
      show ?thesis
      proof (cases "?x' > 2 ^ 63")
        case True
        then have "2 ^ 63 < unat x * 10 + digitVal c"
          by (simp add: word_less_nat_alt ux')
        also have "\<dots> \<le> valFrom (unat x * 10 + digitVal c) (takeWhile isDigit s)"
          by (rule valFrom_ge)
        finally show ?thesis
          using dig nbig True by (simp add: not_isDigit_iff Let_def)
      next
        case False
        then have "unat ?x' \<le> 2 ^ 63"
          by (simp add: word_less_nat_alt)
        from Cons.IH [OF this] show ?thesis
          using dig nbig False by (simp add: not_isDigit_iff Let_def ux')
      qed
    qed
  qed
qed

lemma leadingInt_spec:
  "leadingInt s =
     (if 2 ^ 63 < valFrom 0 (takeWhile isDigit s) then Inl errLeadingInt
      else Inr (of_nat (valFrom 0 (takeWhile isDigit s)), dropWhile isDigit s))"
  unfolding leadingInt_def by (subst leadingInt_loop_spec) simp_all

section \<open>Evaluating the parser on given inputs\<close>

lemma consumeSign_simps:
  "consumeSign [] = (False, [])"
  "consumeSign (c # t) =
     (if c = CHR ''-'' \<or> c = CHR ''+'' then (c = CHR ''-'', t) else (False, c # t))"
  by (simp_all add: consumeSign_def)

lemma round64_10: "round64 10 = Fin 10"
  by (simp add: round64_def ilog2_def pow2_def round_half_even_def Let_def compute_floorlog)

lemmas lex_eval =
  ParseDuration_loop.simps parseToken_def leadingInt_spec isDigit_def digitVal_def
  consumeFraction_def leadingFraction_def Let_def unitMap_def scaleToken_def round64_10

section \<open>Malformed input and the zero literal\<close>

text \<open>
  C7. \<open>ParseDuration\<close> rejects the empty string, \<open>.s\<close> and \<open>-.s\<close> with the invalid duration
  error, \<open>5\<close> with the missing unit error and \<open>5x\<close> with the unknown unit error, which
  names the unit \<open>x\<close>.
\<close>

theorem ParseDuration_malformed:
  "ParseDuration [] = Inl (InvalidDuration []) \<and>
   ParseDuration ''.s'' = Inl (InvalidDuration ''.s'') \<and>
   ParseDuration ''-.s'' = Inl (InvalidDuration ''-.s'') \<and>
   ParseDuration ''5'' = Inl (MissingUnit ''5'') \<and>
   ParseDuration ''5x'' = Inl (UnknownUnit ''x'' ''5x'')"
  by (simp add: ParseDuration_def consumeSign_simps lex_eval)

text \<open>
  C5. \<open>0\<close>, \<open>-0\<close> and \<open>+0\<close> parse to zero through the shortcut, which is the branch of
  \<open>ParseDuration\<close> taken when the input behind the optional sign is the string \<open>0\<close>: these
  three inputs are the only ones that take it. \<open>0s\<close> and \<open>0.0h\<close> do not take it; the loop
  reads them as tokens, with their units looked up, and they parse to zero too.
\<close>

theorem ParseDuration_zero_literal:
  "ParseDuration ''0'' = Inr 0 \<and>
   ParseDuration ''-0'' = Inr 0 \<and>
   ParseDuration ''+0'' = Inr 0 \<and>
   {s. snd (consumeSign s) = ''0''} = {''0'', ''-0'', ''+0''} \<and>
   snd (consumeSign ''0s'') = ''0s'' \<and>
   ParseDuration_loop ''0s'' ''0s'' 0 = Inr 0 \<and>
   ParseDuration ''0s'' = Inr 0 \<and>
   snd (consumeSign ''0.0h'') = ''0.0h'' \<and>
   ParseDuration_loop ''0.0h'' ''0.0h'' 0 = Inr 0 \<and>
   ParseDuration ''0.0h'' = Inr 0"
proof -
  have shortcut: "{s. snd (consumeSign s) = ''0''} = {''0'', ''-0'', ''+0''}"
  proof (rule set_eqI)
    fix s
    show "s \<in> {s. snd (consumeSign s) = ''0''} \<longleftrightarrow> s \<in> {''0'', ''-0'', ''+0''}"
      by (cases s) (auto simp: consumeSign_simps)
  qed
  have loops:
    "ParseDuration_loop ''0s'' ''0s'' 0 = Inr 0"
    "ParseDuration_loop ''0.0h'' ''0.0h'' 0 = Inr 0"
    by (simp_all add: lex_eval)
  show ?thesis
    by (simp add: shortcut loops ParseDuration_def consumeSign_simps)
qed

section \<open>The bounds of the accumulators\<close>

text \<open>
  C4, as amended. The loop of \<open>leadingInt\<close> tests \<open>x > 2^63 / 10\<close> before the multiply-add
  and \<open>x > 2^63\<close> after it. Together the two tests make \<open>leadingInt\<close> fail exactly when the
  number denoted by some prefix of the leading digits is above \<open>2^63\<close>, one more than the
  largest \<open>int64\<close>; otherwise it returns the number that the leading digits denote and the
  input behind them.
\<close>

theorem leadingInt_fails_iff:
  "(if \<exists>n. 2 ^ 63 < valFrom 0 (take n (takeWhile isDigit s))
    then leadingInt s = Inl errLeadingInt
    else leadingInt s = Inr (of_nat (valFrom 0 (takeWhile isDigit s)), dropWhile isDigit s))"
proof -
  let ?ds = "takeWhile isDigit s"
  have "(\<exists>n. 2 ^ 63 < valFrom 0 (take n ?ds)) \<longleftrightarrow> 2 ^ 63 < valFrom 0 ?ds"
  proof
    assume "\<exists>n. 2 ^ 63 < valFrom 0 (take n ?ds)"
    then obtain n where "2 ^ 63 < valFrom 0 (take n ?ds)" ..
    also have "\<dots> \<le> valFrom (valFrom 0 (take n ?ds)) (drop n ?ds)"
      by (rule valFrom_ge)
    also have "\<dots> = valFrom 0 (take n ?ds @ drop n ?ds)"
      by (simp only: valFrom_append)
    finally show "2 ^ 63 < valFrom 0 ?ds"
      by simp
  next
    assume "2 ^ 63 < valFrom 0 ?ds"
    then have "2 ^ 63 < valFrom 0 (take (length ?ds) ?ds)"
      by simp
    then show "\<exists>n. 2 ^ 63 < valFrom 0 (take n ?ds)" ..
  qed
  then show ?thesis
    by (simp add: leadingInt_spec)
qed

text \<open>
  The claim as stated puts the bound at the largest \<open>int64\<close>, \<open>2^63 - 1\<close>. The digits of
  \<open>2^63\<close> denote a number above it, and \<open>leadingInt\<close> accepts them.
\<close>

theorem leadingInt_accepts_2_63:
  "2 ^ 63 - 1 < valFrom 0 ''9223372036854775808'' \<and>
   leadingInt ''9223372036854775808'' = Inr (2 ^ 63, [])"
  by (simp add: leadingInt_spec isDigit_def digitVal_def)

text \<open>
  C3, as amended. When the loop of \<open>ParseDuration\<close> ends with the accumulator \<open>d\<close>, a
  negative sign gives \<open>- d\<close>, and without it an accumulator above \<open>2^63 - 1\<close> is rejected.
  The rejection is the invalid duration error, the one that malformed input gets: the
  package has no error of its own for overflow. So \<open>-9223372036854775808ns\<close> is
  \<open>- 2^63\<close> nanoseconds, \<open>9223372036854775808ns\<close> fails and \<open>9223372036854775807ns\<close> is
  \<open>2^63 - 1\<close> nanoseconds.
\<close>

theorem ParseDuration_final_step:
  "(\<forall>orig neg s d.
      consumeSign orig = (neg, s) \<and> s \<noteq> ''0'' \<and> s \<noteq> [] \<and>
      ParseDuration_loop orig s 0 = Inr d \<longrightarrow>
      ParseDuration orig =
        (if neg then Inr (- d)
         else if d > 2 ^ 63 - 1 then Inl (InvalidDuration orig)
         else Inr d)) \<and>
   ParseDuration ''-9223372036854775808ns'' = Inr (- (2 ^ 63)) \<and>
   sint (- (2 ^ 63) :: Duration) = - (2 ^ 63) \<and>
   ParseDuration ''9223372036854775808ns'' = Inl (InvalidDuration ''9223372036854775808ns'') \<and>
   ParseDuration ''9223372036854775807ns'' = Inr (2 ^ 63 - 1) \<and>
   sint (2 ^ 63 - 1 :: Duration) = 2 ^ 63 - 1"
proof -
  have rule: "\<forall>orig neg s d.
      consumeSign orig = (neg, s) \<and> s \<noteq> ''0'' \<and> s \<noteq> [] \<and>
      ParseDuration_loop orig s 0 = Inr d \<longrightarrow>
      ParseDuration orig =
        (if neg then Inr (- d)
         else if d > 2 ^ 63 - 1 then Inl (InvalidDuration orig)
         else Inr d)"
    by (simp add: ParseDuration_def)
  have examples:
    "ParseDuration ''-9223372036854775808ns'' = Inr (- (2 ^ 63))"
    "ParseDuration ''9223372036854775808ns'' = Inl (InvalidDuration ''9223372036854775808ns'')"
    "ParseDuration ''9223372036854775807ns'' = Inr (2 ^ 63 - 1)"
    by (simp_all add: ParseDuration_def consumeSign_simps lex_eval)
  have reads:
    "sint (- (2 ^ 63) :: Duration) = - (2 ^ 63)"
    "sint (2 ^ 63 - 1 :: Duration) = 2 ^ 63 - 1"
    by simp_all
  from rule examples reads show ?thesis
    by (intro conjI)
qed

theorem ParseDuration_final_step_witness:
  "consumeSign ''-9223372036854775808ns'' = (True, ''9223372036854775808ns'') \<and>
   ''9223372036854775808ns'' \<noteq> ''0'' \<and> ''9223372036854775808ns'' \<noteq> [] \<and>
   ParseDuration_loop ''-9223372036854775808ns'' ''9223372036854775808ns'' 0 = Inr (2 ^ 63) \<and>
   ParseDuration ''-9223372036854775808ns'' = Inr (- (2 ^ 63))"
proof -
  have hyp: "consumeSign ''-9223372036854775808ns'' = (True, ''9223372036854775808ns'') \<and>
      ''9223372036854775808ns'' \<noteq> ''0'' \<and> ''9223372036854775808ns'' \<noteq> [] \<and>
      ParseDuration_loop ''-9223372036854775808ns'' ''9223372036854775808ns'' 0 = Inr (2 ^ 63)"
    by (simp add: consumeSign_simps lex_eval)
  from ParseDuration_final_step have "\<forall>orig neg s d.
      consumeSign orig = (neg, s) \<and> s \<noteq> ''0'' \<and> s \<noteq> [] \<and>
      ParseDuration_loop orig s 0 = Inr d \<longrightarrow>
      ParseDuration orig =
        (if neg then Inr (- d)
         else if d > 2 ^ 63 - 1 then Inl (InvalidDuration orig)
         else Inr d)" ..
  then have "consumeSign ''-9223372036854775808ns'' = (True, ''9223372036854775808ns'') \<and>
      ''9223372036854775808ns'' \<noteq> ''0'' \<and> ''9223372036854775808ns'' \<noteq> [] \<and>
      ParseDuration_loop ''-9223372036854775808ns'' ''9223372036854775808ns'' 0 = Inr (2 ^ 63) \<longrightarrow>
      ParseDuration ''-9223372036854775808ns'' =
        (if True then Inr (- (2 ^ 63))
         else if (2 ^ 63 :: uint64) > 2 ^ 63 - 1 then Inl (InvalidDuration ''-9223372036854775808ns'')
         else Inr (2 ^ 63))"
    by blast
  with hyp show ?thesis
    by simp
qed

text \<open>
  The claim as stated names an overflow error. The error of \<open>9223372036854775808ns\<close> is
  the invalid duration error, as it is for the malformed \<open>.s\<close>.
\<close>

theorem ParseDuration_overflow_is_invalid_duration:
  "ParseDuration ''9223372036854775808ns'' = Inl (InvalidDuration ''9223372036854775808ns'') \<and>
   ParseDuration ''.s'' = Inl (InvalidDuration ''.s'')"
  by (simp add: ParseDuration_def consumeSign_simps lex_eval)

section \<open>The simplified form\<close>

lemma char_of_digits:
  "char_of (48::nat) = CHR ''0''" "char_of (49::nat) = CHR ''1''" "char_of (50::nat) = CHR ''2''"
  "char_of (51::nat) = CHR ''3''" "char_of (52::nat) = CHR ''4''" "char_of (53::nat) = CHR ''5''"
  "char_of (54::nat) = CHR ''6''" "char_of (55::nat) = CHR ''7''" "char_of (56::nat) = CHR ''8''"
  "char_of (57::nat) = CHR ''9''"
  by code_simp+

lemmas fmt_eval =
  decimal.simps char_of_digits Sprintf_d_def word_sless_alt word_sle_eq Duration_Truncate_def
  quo_def rem_def signed_divide_int_def signed_modulo_int_def

lemma FormatSimplifiedDuration_default:
  assumes "d \<le>s Microsecond"
  shows "FormatSimplifiedDuration d = Sprintf_d d @ ''ns''"
proof -
  from assms have "sint d \<le> 1000"
    by (simp add: word_sle_eq)
  then show ?thesis
    by (simp add: FormatSimplifiedDuration_def word_sless_alt)
qed

text \<open>
  C10. \<open>FormatSimplifiedDuration\<close> takes a duration that is not above one microsecond, so
  every negative duration, to the default branch, which prints the signed count of
  nanoseconds and \<open>ns\<close>: minus two hours is \<open>-7200000000000ns\<close>. The guards are strict, so
  a duration equal to a threshold is printed in the next smaller unit: one hour is
  \<open>60m\<close>.
\<close>

theorem FormatSimplifiedDuration_branches:
  "(\<forall>d. d \<le>s Microsecond \<longrightarrow> FormatSimplifiedDuration d = Sprintf_d d @ ''ns'') \<and>
   (\<forall>d. d <s 0 \<longrightarrow>
      FormatSimplifiedDuration d = CHR ''-'' # decimal (nat (- sint d)) @ ''ns'') \<and>
   FormatSimplifiedDuration (- (Hour * 2)) = ''-7200000000000ns'' \<and>
   FormatSimplifiedDuration (Hour * 24) = ''24h'' \<and>
   FormatSimplifiedDuration Hour = ''60m'' \<and>
   FormatSimplifiedDuration Minute = ''60s'' \<and>
   FormatSimplifiedDuration Second = ''1000ms'' \<and>
   FormatSimplifiedDuration Millisecond = ''1000'' @ [CHR 0xC2, CHR 0xB5, CHR ''s''] \<and>
   FormatSimplifiedDuration Microsecond = ''1000ns''"
proof -
  have neg: "FormatSimplifiedDuration d = CHR ''-'' # decimal (nat (- sint d)) @ ''ns''"
    if "d <s 0" for d
  proof -
    from that have "sint d < 0"
      by (simp add: word_sless_alt)
    moreover from this have "d \<le>s Microsecond"
      by (simp add: word_sle_eq)
    ultimately show ?thesis
      by (simp add: FormatSimplifiedDuration_default Sprintf_d_def)
  qed
  have examples:
    "FormatSimplifiedDuration (- (Hour * 2)) = ''-7200000000000ns''"
    "FormatSimplifiedDuration (Hour * 24) = ''24h''"
    "FormatSimplifiedDuration Hour = ''60m''"
    "FormatSimplifiedDuration Minute = ''60s''"
    "FormatSimplifiedDuration Second = ''1000ms''"
    "FormatSimplifiedDuration Millisecond = ''1000'' @ [CHR 0xC2, CHR 0xB5, CHR ''s'']"
    "FormatSimplifiedDuration Microsecond = ''1000ns''"
    by (simp_all add: FormatSimplifiedDuration_def fmt_eval)
  from neg examples show ?thesis
    by (simp add: FormatSimplifiedDuration_default)
qed

theorem FormatSimplifiedDuration_branches_witness:
  "- (Hour * 2) \<le>s Microsecond \<and> - (Hour * 2) <s 0 \<and>
   FormatSimplifiedDuration (- (Hour * 2)) = Sprintf_d (- (Hour * 2)) @ ''ns'' \<and>
   FormatSimplifiedDuration (- (Hour * 2)) =
     CHR ''-'' # decimal (nat (- sint (- (Hour * 2)))) @ ''ns''"
proof -
  have h1: "- (Hour * 2) \<le>s Microsecond" and h2: "- (Hour * 2) <s 0"
    by (simp_all add: word_sle_eq word_sless_alt)
  from FormatSimplifiedDuration_branches
  have r1: "\<forall>d. d \<le>s Microsecond \<longrightarrow> FormatSimplifiedDuration d = Sprintf_d d @ ''ns''"
    and r2: "\<forall>d. d <s 0 \<longrightarrow>
      FormatSimplifiedDuration d = CHR ''-'' # decimal (nat (- sint d)) @ ''ns''"
    by blast+
  from r1 h1 have "FormatSimplifiedDuration (- (Hour * 2)) = Sprintf_d (- (Hour * 2)) @ ''ns''"
    by blast
  moreover from r2 h2 have "FormatSimplifiedDuration (- (Hour * 2)) =
     CHR ''-'' # decimal (nat (- sint (- (Hour * 2)))) @ ''ns''"
    by blast
  ultimately show ?thesis
    using h1 h2 by blast
qed

section \<open>Fractions\<close>

lemma round64_values:
  "round64 5 = Fin 5"
  "round64 3600000000000 = Fin 3600000000000"
  "round64 360000000000 = Fin 360000000000"
  "round64 1800000000000 = Fin 1800000000000"
  by (simp_all add: round64_def ilog2_def pow2_def round_half_even_def Let_def compute_floorlog)

text \<open>
  C6. \<open>1.5h\<close> parses to 5400000000000 nanoseconds, 90 minutes. The lexer reads the fraction
  as the numerator 5 over the scale 10; the parser adds \<open>float64(5) * (float64(Hour) / 10)\<close>,
  which is 1800000000000 with no rounding, to the integer part \<open>1 * Hour\<close>.
\<close>

theorem ParseDuration_one_and_a_half_hours:
  "ParseDuration ''1.5h'' = Inr 5400000000000 \<and>
   (5400000000000 :: Duration) = 90 * Minute \<and>
   leadingFraction ''5h'' = (5, Fin 10, ''h'') \<and>
   f64_mul (f64_of_uint64 5) (f64_div (f64_of_uint64 Hour) (Fin 10)) = Fin 1800000000000 \<and>
   scaleToken ''1.5h'' 1 5 (Fin 10) Hour = Inr (1 * Hour + 1800000000000)"
proof -
  have frac: "leadingFraction ''5h'' = (5, Fin 10, ''h'')"
    by (simp add: leadingFraction_def round64_10)
  have prod: "f64_mul (f64_of_uint64 5) (f64_div (f64_of_uint64 Hour) (Fin 10)) =
      Fin 1800000000000"
    by (simp add: f64_of_uint64_def round64_values)
  have tok: "scaleToken ''1.5h'' 1 5 (Fin 10) Hour = Inr (1 * Hour + 1800000000000)"
    by (simp add: scaleToken_def prod)
  have "ParseDuration ''1.5h'' = Inr 5400000000000"
    by (simp add: ParseDuration_def consumeSign_simps ParseDuration_loop.simps parseToken_def
        leadingInt_spec isDigit_def digitVal_def consumeFraction_def frac unitMap_def tok)
  with frac prod tok show ?thesis
    by simp
qed

section \<open>Named days\<close>

lemma TrimSpace_constants:
  "TrimSpace ''today'' = ''today''"
  "TrimSpace ''yesterday'' = ''yesterday''"
  "TrimSpace ''tomorrow'' = ''tomorrow''"
  by code_simp+

text \<open>
  For a reference time in UTC the three constants are the midnight that starts its day,
  and that midnight one day earlier and later.
\<close>

lemma ParseExprRef_days_UTC:
  assumes "zone_offset ref = 0"
  shows "ParseExprRef lib ''today'' ref = Inr (local_midnight ref)"
    and "ParseExprRef lib ''yesterday'' ref = Inr (Time_AddDate_days (local_midnight ref) (- 1))"
    and "ParseExprRef lib ''tomorrow'' ref = Inr (Time_AddDate_days (local_midnight ref) 1)"
  using assms
  by (simp_all add: ParseExprRef_def TrimSpace_constants Time_Truncate_def local_midnight_def
      Let_def)

text \<open>
  C2. The reference time 2024-11-14 03:00:00 in the zone UTC+09:00 is the instant
  2024-11-13 18:00:00 UTC, 63867117600 seconds after the zero time. Its day starts at
  2024-11-14 00:00:00 +09:00, which is 63867106800 seconds after the zero time. For
  \<open>today\<close> the dispatcher returns 63867052800 seconds instead: 2024-11-13 00:00:00 UTC,
  which is 09:00:00 of the day before in the zone of the reference. \<open>yesterday\<close> and
  \<open>tomorrow\<close> are one day before and after that instant, so no midnight of the zone
  either.
\<close>

theorem ParseExprRef_today_in_fixed_zone:
  "ParseExprRef lib ''today'' \<lparr>abs_ns = 63867117600000000000, zone_offset = 32400\<rparr> =
     Inr \<lparr>abs_ns = 63867052800000000000, zone_offset = 32400\<rparr> \<and>
   local_midnight \<lparr>abs_ns = 63867117600000000000, zone_offset = 32400\<rparr> =
     \<lparr>abs_ns = 63867106800000000000, zone_offset = 32400\<rparr> \<and>
   ParseExprRef lib ''yesterday'' \<lparr>abs_ns = 63867117600000000000, zone_offset = 32400\<rparr> =
     Inr \<lparr>abs_ns = 63866966400000000000, zone_offset = 32400\<rparr> \<and>
   Time_AddDate_days (local_midnight \<lparr>abs_ns = 63867117600000000000, zone_offset = 32400\<rparr>) (- 1) =
     \<lparr>abs_ns = 63867020400000000000, zone_offset = 32400\<rparr> \<and>
   ParseExprRef lib ''tomorrow'' \<lparr>abs_ns = 63867117600000000000, zone_offset = 32400\<rparr> =
     Inr \<lparr>abs_ns = 63867139200000000000, zone_offset = 32400\<rparr> \<and>
   Time_AddDate_days (local_midnight \<lparr>abs_ns = 63867117600000000000, zone_offset = 32400\<rparr>) 1 =
     \<lparr>abs_ns = 63867193200000000000, zone_offset = 32400\<rparr>"
  by (simp add: ParseExprRef_def TrimSpace_constants Time_Truncate_def Time_AddDate_days_def
      local_midnight_def Let_def)

section \<open>Signed division on words\<close>

text \<open>
  With a positive divisor the quotient and the remainder of \<open>int64\<close> fit, and they are
  those of the magnitudes, with the sign of the dividend.
\<close>

lemma sdiv_pos: "0 < b \<Longrightarrow> (a::int) sdiv b = (if 0 \<le> a then a div b else - ((- a) div b))"
  by (simp add: signed_divide_int_def sgn_if)

lemma smod_pos: "0 < b \<Longrightarrow> (a::int) smod b = (if 0 \<le> a then a mod b else - ((- a) mod b))"
  by (simp add: signed_modulo_int_def sgn_if)

lemma sint_word_of_int64:
  "- 9223372036854775808 \<le> k \<Longrightarrow> k < 9223372036854775808 \<Longrightarrow>
   sint (word_of_int k :: Duration) = k"
  by (simp add: sint_sbintrunc' signed_take_bit_int_eq_self)

lemma sint_bounds64:
  "- 9223372036854775808 \<le> sint (a :: Duration)" "sint (a :: Duration) < 9223372036854775808"
  using sint_ge [of a] sint_lt [of a] by simp_all

lemma int_div_le: "0 \<le> a \<Longrightarrow> 0 < b \<Longrightarrow> a div b \<le> (a::int)"
  using zdiv_mono2 [of a 1 b] by simp

lemma sint_quo:
  assumes "0 < sint b"
  shows "sint (quo a b) = sint a sdiv sint b"
proof -
  have "0 \<le> sint a \<Longrightarrow> sint a div sint b \<le> sint a"
    using assms by (simp add: int_div_le)
  moreover have "0 \<le> sint a \<Longrightarrow> 0 \<le> sint a div sint b"
    using assms by (simp add: pos_imp_zdiv_nonneg_iff)
  moreover have "sint a < 0 \<Longrightarrow> (- sint a) div sint b \<le> - sint a"
    using assms by (simp add: int_div_le)
  moreover have "sint a < 0 \<Longrightarrow> 0 \<le> (- sint a) div sint b"
    using assms by (simp add: pos_imp_zdiv_nonneg_iff)
  ultimately have "- 9223372036854775808 \<le> sint a sdiv sint b"
    "sint a sdiv sint b < 9223372036854775808"
    using sint_bounds64 [of a] assms by (auto simp: sdiv_pos)
  then show ?thesis
    unfolding quo_def by (rule sint_word_of_int64)
qed

lemma sint_rem:
  assumes "0 < sint b"
  shows "sint (rem a b) = sint a smod sint b"
proof -
  have range: "- 9223372036854775808 \<le> sint a smod sint b \<and>
    sint a smod sint b < 9223372036854775808"
  proof (cases "0 \<le> sint a")
    case True
    with assms have e: "sint a smod sint b = sint a mod sint b"
      by (simp add: smod_pos)
    have "0 \<le> sint a mod sint b"
      using assms by simp
    moreover from True have "sint a mod sint b \<le> sint a"
      by (simp add: zmod_le_nonneg_dividend)
    ultimately show ?thesis
      unfolding e using sint_bounds64 (2) [of a] by linarith
  next
    case False
    with assms have e: "sint a smod sint b = - ((- sint a) mod sint b)"
      by (simp add: smod_pos)
    have "0 \<le> (- sint a) mod sint b"
      using assms by simp
    moreover from False have "(- sint a) mod sint b \<le> - sint a"
      by (simp add: zmod_le_nonneg_dividend)
    ultimately show ?thesis
      unfolding e using sint_bounds64 (1) [of a] by linarith
  qed
  then show ?thesis
    unfolding rem_def by (simp add: sint_word_of_int64)
qed

section \<open>The canonical form in components\<close>

lemma formatHigh_parts:
  "formatHigh d0 =
     (if 0 <s quo (quo (quo (quo d0 Second) 60) 60) 24
      then Sprintf_d (quo (quo (quo (quo d0 Second) 60) 60) 24) @ ''d'' else []) @
     (if rem (quo (quo (quo d0 Second) 60) 60) 24 \<noteq> 0
      then Sprintf_d (rem (quo (quo (quo d0 Second) 60) 60) 24) @ ''h'' else []) @
     (if rem (quo (quo d0 Second) 60) 60 \<noteq> 0
      then Sprintf_d (rem (quo (quo d0 Second) 60) 60) @ ''m'' else []) @
     (if rem (quo d0 Second) 60 \<noteq> 0
      then Sprintf_d (rem (quo d0 Second) 60) @ ''s'' else [])"
  by (simp add: formatHigh_def Let_def)

lemma formatLow_parts:
  "formatLow d0 =
     (if 0 <s quo (quo (rem d0 Second) 1000) 1000
      then Sprintf_d (quo (quo (rem d0 Second) 1000) 1000) @ ''ms'' else []) @
     (if rem (quo (rem d0 Second) 1000) 1000 \<noteq> 0
      then Sprintf_d (rem (quo (rem d0 Second) 1000) 1000) @ [CHR 0xC2, CHR 0xB5, CHR ''s'']
      else []) @
     (if rem (rem d0 Second) 1000 \<noteq> 0
      then Sprintf_d (rem (rem d0 Second) 1000) @ ''ns'' else [])"
  by (simp add: formatLow_def Let_def)

lemma quo_nonneg:
  assumes "sint a = int k" and "sint b = int j" and "0 < j"
  shows "sint (quo a b) = int (k div j)"
  using assms by (simp add: sint_quo sdiv_pos zdiv_int)

lemma rem_nonneg:
  assumes "sint a = int k" and "sint b = int j" and "0 < j"
  shows "sint (rem a b) = int (k mod j)"
  using assms by (simp add: sint_rem smod_pos zmod_int)

lemma quo_nonpos:
  assumes "sint a = - int k" and "sint b = int j" and "0 < j"
  shows "sint (quo a b) = - int (k div j)"
  using assms by (simp add: sint_quo sdiv_pos zdiv_int)

lemma rem_nonpos:
  assumes "sint a = - int k" and "sint b = int j" and "0 < j"
  shows "sint (rem a b) = - int (k mod j)"
  using assms by (simp add: sint_rem smod_pos zmod_int)

lemma part_nonneg:
  assumes "sint v = int k"
  shows "(if v \<noteq> 0 then Sprintf_d v @ u else []) = tok k u"
    and "(if 0 <s v then Sprintf_d v @ u else []) = tok k u"
proof -
  have "v = 0 \<longleftrightarrow> k = 0"
    using assms by (metis of_nat_eq_0_iff signed_eq_0_iff)
  with assms show "(if v \<noteq> 0 then Sprintf_d v @ u else []) = tok k u"
    and "(if 0 <s v then Sprintf_d v @ u else []) = tok k u"
    by (simp_all add: tok_def Sprintf_d_def word_sless_alt)
qed

lemma part_nonpos:
  assumes "sint v = - int k"
  shows "(if v \<noteq> 0 then Sprintf_d v @ u else []) = neg_tok k u"
    and "(if 0 <s v then Sprintf_d v @ u else []) = []"
proof -
  have "v = 0 \<longleftrightarrow> k = 0"
    using assms by (metis neg_equal_0_iff_equal of_nat_eq_0_iff signed_eq_0_iff)
  with assms show "(if v \<noteq> 0 then Sprintf_d v @ u else []) = neg_tok k u"
    and "(if 0 <s v then Sprintf_d v @ u else []) = []"
    by (simp_all add: neg_tok_def Sprintf_d_def word_sless_alt)
qed

lemma sint_units:
  "sint (Second :: Duration) = int 1000000000"
  "sint (60 :: Duration) = int 60"
  "sint (24 :: Duration) = int 24"
  "sint (1000 :: Duration) = int 1000"
  by simp_all

lemma formatHigh_nonneg:
  assumes "sint d = int n"
  shows "formatHigh d =
     tok (n div 1000000000 div 60 div 60 div 24) ''d'' @
     tok (n div 1000000000 div 60 div 60 mod 24) ''h'' @
     tok (n div 1000000000 div 60 mod 60) ''m'' @
     tok (n div 1000000000 mod 60) ''s''"
proof -
  have d1: "sint (quo d Second) = int (n div 1000000000)"
    by (rule quo_nonneg [OF assms sint_units(1)]) simp
  have d2: "sint (quo (quo d Second) 60) = int (n div 1000000000 div 60)"
    by (rule quo_nonneg [OF d1 sint_units(2)]) simp
  have d3: "sint (quo (quo (quo d Second) 60) 60) = int (n div 1000000000 div 60 div 60)"
    by (rule quo_nonneg [OF d2 sint_units(2)]) simp
  have d4: "sint (quo (quo (quo (quo d Second) 60) 60) 24) =
      int (n div 1000000000 div 60 div 60 div 24)"
    by (rule quo_nonneg [OF d3 sint_units(3)]) simp
  have v1: "sint (rem (quo d Second) 60) = int (n div 1000000000 mod 60)"
    by (rule rem_nonneg [OF d1 sint_units(2)]) simp
  have v2: "sint (rem (quo (quo d Second) 60) 60) = int (n div 1000000000 div 60 mod 60)"
    by (rule rem_nonneg [OF d2 sint_units(2)]) simp
  have v3: "sint (rem (quo (quo (quo d Second) 60) 60) 24) =
      int (n div 1000000000 div 60 div 60 mod 24)"
    by (rule rem_nonneg [OF d3 sint_units(3)]) simp
  show ?thesis
    by (simp only: formatHigh_parts part_nonneg(2) [OF d4] part_nonneg(1) [OF v3]
        part_nonneg(1) [OF v2] part_nonneg(1) [OF v1])
qed

lemma formatLow_nonneg:
  assumes "sint d = int n"
  shows "formatLow d =
     tok (n mod 1000000000 div 1000 div 1000) ''ms'' @
     tok (n mod 1000000000 div 1000 mod 1000) [CHR 0xC2, CHR 0xB5, CHR ''s''] @
     tok (n mod 1000000000 mod 1000) ''ns''"
proof -
  have d1: "sint (rem d Second) = int (n mod 1000000000)"
    by (rule rem_nonneg [OF assms sint_units(1)]) simp
  have d2: "sint (quo (rem d Second) 1000) = int (n mod 1000000000 div 1000)"
    by (rule quo_nonneg [OF d1 sint_units(4)]) simp
  have d3: "sint (quo (quo (rem d Second) 1000) 1000) = int (n mod 1000000000 div 1000 div 1000)"
    by (rule quo_nonneg [OF d2 sint_units(4)]) simp
  have v1: "sint (rem (rem d Second) 1000) = int (n mod 1000000000 mod 1000)"
    by (rule rem_nonneg [OF d1 sint_units(4)]) simp
  have v2: "sint (rem (quo (rem d Second) 1000) 1000) = int (n mod 1000000000 div 1000 mod 1000)"
    by (rule rem_nonneg [OF d2 sint_units(4)]) simp
  show ?thesis
    by (simp only: formatLow_parts part_nonneg(2) [OF d3] part_nonneg(1) [OF v2]
        part_nonneg(1) [OF v1])
qed

lemma formatHigh_nonpos:
  assumes "sint d = - int n"
  shows "formatHigh d =
     neg_tok (n div 1000000000 div 60 div 60 mod 24) ''h'' @
     neg_tok (n div 1000000000 div 60 mod 60) ''m'' @
     neg_tok (n div 1000000000 mod 60) ''s''"
proof -
  have d1: "sint (quo d Second) = - int (n div 1000000000)"
    by (rule quo_nonpos [OF assms sint_units(1)]) simp
  have d2: "sint (quo (quo d Second) 60) = - int (n div 1000000000 div 60)"
    by (rule quo_nonpos [OF d1 sint_units(2)]) simp
  have d3: "sint (quo (quo (quo d Second) 60) 60) = - int (n div 1000000000 div 60 div 60)"
    by (rule quo_nonpos [OF d2 sint_units(2)]) simp
  have d4: "sint (quo (quo (quo (quo d Second) 60) 60) 24) =
      - int (n div 1000000000 div 60 div 60 div 24)"
    by (rule quo_nonpos [OF d3 sint_units(3)]) simp
  have v1: "sint (rem (quo d Second) 60) = - int (n div 1000000000 mod 60)"
    by (rule rem_nonpos [OF d1 sint_units(2)]) simp
  have v2: "sint (rem (quo (quo d Second) 60) 60) = - int (n div 1000000000 div 60 mod 60)"
    by (rule rem_nonpos [OF d2 sint_units(2)]) simp
  have v3: "sint (rem (quo (quo (quo d Second) 60) 60) 24) =
      - int (n div 1000000000 div 60 div 60 mod 24)"
    by (rule rem_nonpos [OF d3 sint_units(3)]) simp
  show ?thesis
    by (simp only: formatHigh_parts part_nonpos(2) [OF d4] part_nonpos(1) [OF v3]
        part_nonpos(1) [OF v2] part_nonpos(1) [OF v1] append_Nil)
qed

lemma formatLow_nonpos:
  assumes "sint d = - int n"
  shows "formatLow d =
     neg_tok (n mod 1000000000 div 1000 mod 1000) [CHR 0xC2, CHR 0xB5, CHR ''s''] @
     neg_tok (n mod 1000000000 mod 1000) ''ns''"
proof -
  have d1: "sint (rem d Second) = - int (n mod 1000000000)"
    by (rule rem_nonpos [OF assms sint_units(1)]) simp
  have d2: "sint (quo (rem d Second) 1000) = - int (n mod 1000000000 div 1000)"
    by (rule quo_nonpos [OF d1 sint_units(4)]) simp
  have d3: "sint (quo (quo (rem d Second) 1000) 1000) =
      - int (n mod 1000000000 div 1000 div 1000)"
    by (rule quo_nonpos [OF d2 sint_units(4)]) simp
  have v1: "sint (rem (rem d Second) 1000) = - int (n mod 1000000000 mod 1000)"
    by (rule rem_nonpos [OF d1 sint_units(4)]) simp
  have v2: "sint (rem (quo (rem d Second) 1000) 1000) =
      - int (n mod 1000000000 div 1000 mod 1000)"
    by (rule rem_nonpos [OF d2 sint_units(4)]) simp
  show ?thesis
    by (simp only: formatLow_parts part_nonpos(2) [OF d3] part_nonpos(1) [OF v2]
        part_nonpos(1) [OF v1] append_Nil)
qed

lemma flatten_high:
  "(n::nat) div 1000000000 div 60 div 60 div 24 = n div 86400000000000"
  "n div 1000000000 div 60 div 60 mod 24 = n div 3600000000000 mod 24"
  "n div 1000000000 div 60 mod 60 = n div 60000000000 mod 60"
  by (simp_all add: div_mult2_eq [symmetric])

lemma mod_mult_div: "0 < a \<Longrightarrow> m mod (a * q) div a = m div a mod (q::nat)"
  by (simp add: mod_mult2_eq)

lemma flatten_low:
  "(n::nat) mod 1000000000 div 1000 div 1000 = n div 1000000 mod 1000"
  "n mod 1000000000 div 1000 mod 1000 = n div 1000 mod 1000"
  "n mod 1000000000 mod 1000 = n mod 1000"
proof -
  have "n mod 1000000000 div 1000 div 1000 = n mod (1000000 * 1000) div 1000000"
    by (simp add: div_mult2_eq [symmetric])
  also have "\<dots> = n div 1000000 mod 1000"
    by (rule mod_mult_div) simp
  finally show "n mod 1000000000 div 1000 div 1000 = n div 1000000 mod 1000" .
  have "n mod 1000000000 div 1000 = n mod (1000 * 1000000) div 1000"
    by simp
  also have "\<dots> = n div 1000 mod 1000000"
    by (rule mod_mult_div) simp
  finally have "n mod 1000000000 div 1000 mod 1000 = n div 1000 mod 1000000 mod 1000"
    by simp
  also have "\<dots> = n div 1000 mod 1000"
    by (rule mod_mod_cancel) simp
  finally show "n mod 1000000000 div 1000 mod 1000 = n div 1000 mod 1000" .
  show "n mod 1000000000 mod 1000 = n mod 1000"
    by (rule mod_mod_cancel) simp
qed

lemma FormatDuration_nonpos:
  assumes "sint d < 0"
  shows "FormatDuration d =
     neg_tok (nat (- sint d) div 3600000000000 mod 24) ''h'' @
     neg_tok (nat (- sint d) div 60000000000 mod 60) ''m'' @
     neg_tok (nat (- sint d) div 1000000000 mod 60) ''s'' @
     neg_tok (nat (- sint d) div 1000 mod 1000) [CHR 0xC2, CHR 0xB5, CHR ''s''] @
     neg_tok (nat (- sint d) mod 1000) ''ns''"
proof -
  from assms have n: "sint d = - int (nat (- sint d))"
    by simp
  from assms have "d \<noteq> 0"
    by auto
  then show ?thesis
    by (simp add: FormatDuration_def formatHigh_nonpos [OF n] formatLow_nonpos [OF n]
        flatten_high flatten_low)
qed

section \<open>Negative durations in the canonical form\<close>

text \<open>
  C8, as amended. \<open>FormatDuration\<close> has no case for a negative duration, and the sign is
  not dropped: the quotients and remainders of Go keep the sign of the duration, so each
  component that is printed has its own minus sign. For a negative duration of magnitude
  \<open>n\<close> these are the hours, minutes and seconds of \<open>n\<close>, then its microseconds and
  nanoseconds; the days and the milliseconds stand behind the test \<open>d > 0\<close> and are not
  printed.
\<close>

theorem FormatDuration_negative:
  assumes "d <s 0"
  shows "FormatDuration d =
     neg_tok (nat (- sint d) div 3600000000000 mod 24) ''h'' @
     neg_tok (nat (- sint d) div 60000000000 mod 60) ''m'' @
     neg_tok (nat (- sint d) div 1000000000 mod 60) ''s'' @
     neg_tok (nat (- sint d) div 1000 mod 1000) [CHR 0xC2, CHR 0xB5, CHR ''s''] @
     neg_tok (nat (- sint d) mod 1000) ''ns''"
proof -
  from assms have "sint d < 0"
    by (simp add: word_sless_alt)
  then show ?thesis
    by (rule FormatDuration_nonpos)
qed

theorem FormatDuration_negative_witness:
  "- (Hour + Minute) <s (0 :: Duration) \<and> FormatDuration (- (Hour + Minute)) = ''-1h-1m''"
proof -
  have neg: "- (Hour + Minute) <s (0 :: Duration)"
    by (simp add: word_sless_alt)
  from FormatDuration_negative [OF neg] show ?thesis
    using neg by (simp add: neg_tok_def decimal.simps char_of_digits)
qed

text \<open>
  The claim as stated has no sign marker in the rendering of a negative duration. Minus
  five seconds is rendered with one.
\<close>

theorem FormatDuration_minus_five_seconds:
  "FormatDuration (- (5 * Second)) = ''-5s'' \<and>
   CHR ''-'' \<in> set (FormatDuration (- (5 * Second)))"
proof -
  have "sint (- (5 * Second) :: Duration) < 0"
    by simp
  from FormatDuration_nonpos [OF this] show ?thesis
    by (simp add: neg_tok_def decimal.simps char_of_digits)
qed

section \<open>Parsing the canonical form\<close>

lemma digit_char:
  assumes "j < 10"
  shows "isDigit (char_of (48 + j))" and "digitVal (char_of (48 + j)) = j"
  using assms by (simp_all add: isDigit_iff digitVal_def)

lemma decimal_digits: "c \<in> set (decimal k) \<Longrightarrow> isDigit c"
proof (induction k arbitrary: c rule: decimal.induct)
  case (1 n)
  show ?case
  proof (cases "n < 10")
    case True
    with "1.prems" show ?thesis
      by (simp add: decimal.simps [of n] digit_char)
  next
    case False
    with "1.prems" have "c \<in> set (decimal (n div 10)) \<or> c = char_of (48 + n mod 10)"
      by (auto simp: decimal.simps [of n])
    with False "1.IH" show ?thesis
      by (auto simp: digit_char)
  qed
qed

lemma decimal_nonempty: "decimal k \<noteq> []"
  by (subst decimal.simps) simp

lemma valFrom_decimal: "valFrom 0 (decimal k) = k"
proof (induction k rule: decimal.induct)
  case (1 n)
  show ?case
  proof (cases "n < 10")
    case True
    then show ?thesis
      by (simp add: decimal.simps [of n] digit_char)
  next
    case False
    with "1.IH" show ?thesis
      by (simp add: decimal.simps [of n] valFrom_append digit_char)
  qed
qed


lemma unitEnd_unit:
  assumes "\<forall>c \<in> set u. \<not> isDigit c \<and> c \<noteq> CHR ''.''" and "startsOK rest"
  shows "unitEnd (u @ rest) = length u"
  using assms
proof (induction u)
  case Nil
  then show ?case
    by (cases rest) (simp_all add: startsOK_def isDigit_def)
next
  case (Cons c u)
  then show ?case
    by (simp add: isDigit_def)
qed

lemma takeWhile_decimal:
  assumes "unitText u"
  shows "takeWhile isDigit (decimal k @ u @ rest) = decimal k"
    and "dropWhile isDigit (decimal k @ u @ rest) = u @ rest"
proof -
  from assms obtain c u' where u: "u = c # u'" and c: "\<not> isDigit c"
    by (cases u) (auto simp: unitText_def)
  have all: "\<forall>x \<in> set (decimal k). isDigit x"
    by (simp add: decimal_digits)
  show "takeWhile isDigit (decimal k @ u @ rest) = decimal k"
    using all c by (simp add: u takeWhile_append2)
  show "dropWhile isDigit (decimal k @ u @ rest) = u @ rest"
    using all c by (simp add: u dropWhile_append2)
qed

lemma leadingInt_decimal:
  assumes "unitText u" and "k \<le> 2 ^ 63"
  shows "leadingInt (decimal k @ u @ rest) = Inr (of_nat k, u @ rest)"
  using assms by (simp add: leadingInt_spec takeWhile_decimal valFrom_decimal)

lemma consumeFraction_unit:
  assumes "unitText u"
  shows "consumeFraction (u @ rest) = (0, Fin 1, u @ rest, False)"
proof -
  from assms obtain c u' where "u = c # u'" and "c \<noteq> CHR ''.''"
    by (cases u) (auto simp: unitText_def)
  then show ?thesis
    by (simp add: consumeFraction_def)
qed

lemma scaleToken_int:
  fixes U :: uint64
  assumes "k * unat U \<le> 2 ^ 63" and "0 < unat U"
  shows "scaleToken orig (of_nat k) 0 sc U = Inr (of_nat (k * unat U))"
proof -
  from assms have kb: "k \<le> 2 ^ 63 div unat U"
    by (simp add: less_eq_div_iff_mult_less_eq)
  also have "\<dots> \<le> 2 ^ 63"
    by (rule div_le_dividend)
  finally have "k < 2 ^ 64"
    by simp
  then have uk: "unat (of_nat k :: uint64) = k"
    by (rule unat_of_nat64)
  have "unat (2 ^ 63 div U :: uint64) = 2 ^ 63 div unat U"
    by (simp add: unat_div)
  with kb uk have "\<not> (of_nat k :: uint64) > 2 ^ 63 div U"
    by (simp add: word_less_nat_alt)
  then show ?thesis
    by (simp add: scaleToken_def)
qed

lemma parseToken_decimal:
  fixes U :: uint64
  assumes "unitText u" and "unitMap u = Some U" and "0 < unat U" and "startsOK rest"
    and "k * unat U \<le> 2 ^ 63"
  shows "parseToken orig (decimal k @ u @ rest) = Inr (of_nat (k * unat U), rest)"
proof -
  obtain c ds where dk: "decimal k = c # ds"
    using decimal_nonempty [of k] by (cases "decimal k") auto
  have "isDigit c"
    using decimal_digits [of c k] by (simp add: dk)
  then have first: "\<not> \<not> (c = CHR ''.'' \<or> (CHR ''0'' \<le> c \<and> c \<le> CHR ''9''))"
    by (simp add: isDigit_def)
  from assms(3,5) have "k \<le> 2 ^ 63 div unat U"
    by (simp add: less_eq_div_iff_mult_less_eq)
  also have "\<dots> \<le> 2 ^ 63"
    by (rule div_le_dividend)
  finally have k: "k \<le> 2 ^ 63" .
  have li: "leadingInt (c # ds @ u @ rest) = Inr (of_nat k, u @ rest)"
    using leadingInt_decimal [OF assms(1) k, of rest] by (simp add: dk)
  have ue: "unitEnd (u @ rest) = length u"
    using assms(1,4) by (simp add: unitEnd_unit unitText_def)
  have "u \<noteq> []"
    using assms(1) by (simp add: unitText_def)
  then show ?thesis
    using first
    by (simp add: parseToken_def dk li consumeFraction_unit [OF assms(1)] ue assms(2)
        scaleToken_int [OF assms(5,3)] del: not_not)
qed


lemma startsOK_tok: "startsOK r \<Longrightarrow> startsOK (tok k u @ r)"
proof (cases "k = 0")
  case True
  assume "startsOK r"
  with True show ?thesis
    by (simp add: tok_def)
next
  case False
  obtain c ds where dk: "decimal k = c # ds"
    using decimal_nonempty [of k] by (cases "decimal k") auto
  have "isDigit c"
    using decimal_digits [of c k] by (simp add: dk)
  with False show ?thesis
    by (simp add: tok_def dk startsOK_def)
qed

lemma loop_tok:
  fixes U :: uint64
  assumes "unitText u" and "unitMap u = Some U" and "0 < unat U" and "startsOK rest"
    and "a + k * unat U \<le> 2 ^ 63"
  shows "ParseDuration_loop orig (tok k u @ rest) (of_nat a) =
    ParseDuration_loop orig rest (of_nat (a + k * unat U))"
proof (cases "k = 0")
  case True
  then show ?thesis
    by (simp add: tok_def)
next
  case False
  from assms(5) have kU: "k * unat U \<le> 2 ^ 63"
    by simp
  have ne: "decimal k @ u @ rest \<noteq> []"
    by (simp add: decimal_nonempty)
  have "a + k * unat U < 2 ^ 64"
    using assms(5) by simp
  then have "unat (of_nat (a + k * unat U) :: uint64) = a + k * unat U"
    by (rule unat_of_nat64)
  with assms(5) have "\<not> (of_nat (a + k * unat U) :: uint64) > 2 ^ 63"
    by (simp add: word_less_nat_alt)
  then have small: "\<not> (of_nat a + of_nat (k * unat U) :: uint64) > 2 ^ 63"
    by simp
  have "ParseDuration_loop orig (decimal k @ u @ rest) (of_nat a) =
      ParseDuration_loop orig rest (of_nat a + of_nat (k * unat U))"
    using ne small
    by (subst ParseDuration_loop.simps)
      (simp add: parseToken_decimal [OF assms(1,2,3,4) kU] decimal_nonempty)
  with False show ?thesis
    by (simp add: tok_def)
qed

lemma unit_texts:
  "unitText ''d''" "unitText ''h''" "unitText ''m''" "unitText ''s''" "unitText ''ms''"
  "unitText [CHR 0xC2, CHR 0xB5, CHR ''s'']" "unitText ''ns''"
  by (simp_all add: unitText_def isDigit_def)

lemma unit_values:
  "unitMap ''d'' = Some 86400000000000" "unitMap ''h'' = Some 3600000000000"
  "unitMap ''m'' = Some 60000000000" "unitMap ''s'' = Some 1000000000"
  "unitMap ''ms'' = Some 1000000" "unitMap [CHR 0xC2, CHR 0xB5, CHR ''s''] = Some 1000"
  "unitMap ''ns'' = Some 1"
  by (simp_all add: unitMap_def)

lemma loop_canonical:
  assumes "D * 86400000000000 + H * 3600000000000 + M * 60000000000 + S * 1000000000 +
      ms * 1000000 + us * 1000 + ns \<le> 2 ^ 63"
  shows "ParseDuration_loop orig
      (tok D ''d'' @ tok H ''h'' @ tok M ''m'' @ tok S ''s'' @ tok ms ''ms'' @
       tok us [CHR 0xC2, CHR 0xB5, CHR ''s''] @ tok ns ''ns'') 0 =
    Inr (of_nat (D * 86400000000000 + H * 3600000000000 + M * 60000000000 + S * 1000000000 +
      ms * 1000000 + us * 1000 + ns))"
proof -
  let ?r7 = "[] :: string"
  let ?r6 = "tok ns ''ns'' @ ?r7"
  let ?r5 = "tok us [CHR 0xC2, CHR 0xB5, CHR ''s''] @ ?r6"
  let ?r4 = "tok ms ''ms'' @ ?r5"
  let ?r3 = "tok S ''s'' @ ?r4"
  let ?r2 = "tok M ''m'' @ ?r3"
  let ?r1 = "tok H ''h'' @ ?r2"
  have ok7: "startsOK ?r7" by (simp add: startsOK_def)
  have ok6: "startsOK ?r6" using ok7 by (rule startsOK_tok)
  have ok5: "startsOK ?r5" using ok6 by (rule startsOK_tok)
  have ok4: "startsOK ?r4" using ok5 by (rule startsOK_tok)
  have ok3: "startsOK ?r3" using ok4 by (rule startsOK_tok)
  have ok2: "startsOK ?r2" using ok3 by (rule startsOK_tok)
  have ok1: "startsOK ?r1" using ok2 by (rule startsOK_tok)
  let ?a1 = "D * 86400000000000"
  let ?a2 = "?a1 + H * 3600000000000"
  let ?a3 = "?a2 + M * 60000000000"
  let ?a4 = "?a3 + S * 1000000000"
  let ?a5 = "?a4 + ms * 1000000"
  let ?a6 = "?a5 + us * 1000"
  let ?a7 = "?a6 + ns"
  have s1: "ParseDuration_loop orig (tok D ''d'' @ ?r1) (of_nat 0) =
      ParseDuration_loop orig ?r1 (of_nat (0 + D * unat (86400000000000 :: uint64)))"
    by (rule loop_tok [OF unit_texts(1) unit_values(1) _ ok1]) (use assms in simp_all)
  have s2: "ParseDuration_loop orig (tok H ''h'' @ ?r2) (of_nat ?a1) =
      ParseDuration_loop orig ?r2 (of_nat (?a1 + H * unat (3600000000000 :: uint64)))"
    by (rule loop_tok [OF unit_texts(2) unit_values(2) _ ok2]) (use assms in simp_all)
  have s3: "ParseDuration_loop orig (tok M ''m'' @ ?r3) (of_nat ?a2) =
      ParseDuration_loop orig ?r3 (of_nat (?a2 + M * unat (60000000000 :: uint64)))"
    by (rule loop_tok [OF unit_texts(3) unit_values(3) _ ok3]) (use assms in simp_all)
  have s4: "ParseDuration_loop orig (tok S ''s'' @ ?r4) (of_nat ?a3) =
      ParseDuration_loop orig ?r4 (of_nat (?a3 + S * unat (1000000000 :: uint64)))"
    by (rule loop_tok [OF unit_texts(4) unit_values(4) _ ok4]) (use assms in simp_all)
  have s5: "ParseDuration_loop orig (tok ms ''ms'' @ ?r5) (of_nat ?a4) =
      ParseDuration_loop orig ?r5 (of_nat (?a4 + ms * unat (1000000 :: uint64)))"
    by (rule loop_tok [OF unit_texts(5) unit_values(5) _ ok5]) (use assms in simp_all)
  have s6: "ParseDuration_loop orig (tok us [CHR 0xC2, CHR 0xB5, CHR ''s''] @ ?r6) (of_nat ?a5) =
      ParseDuration_loop orig ?r6 (of_nat (?a5 + us * unat (1000 :: uint64)))"
    by (rule loop_tok [OF unit_texts(6) unit_values(6) _ ok6]) (use assms in simp_all)
  have s7: "ParseDuration_loop orig (tok ns ''ns'' @ ?r7) (of_nat ?a6) =
      ParseDuration_loop orig ?r7 (of_nat (?a6 + ns * unat (1 :: uint64)))"
    by (rule loop_tok [OF unit_texts(7) unit_values(7) _ ok7]) (use assms in simp_all)
  have e: "ParseDuration_loop orig ?r7 (of_nat ?a7) = Inr (of_nat ?a7)"
    by (simp add: ParseDuration_loop.simps)
  have u: "unat (86400000000000 :: uint64) = 86400000000000"
    "unat (3600000000000 :: uint64) = 3600000000000"
    "unat (60000000000 :: uint64) = 60000000000"
    "unat (1000000000 :: uint64) = 1000000000"
    "unat (1000000 :: uint64) = 1000000"
    "unat (1000 :: uint64) = 1000"
    "unat (1 :: uint64) = 1"
    by simp_all
  have "ParseDuration_loop orig (tok D ''d'' @ ?r1) 0 = ParseDuration_loop orig ?r1 (of_nat ?a1)"
    using s1 by (simp add: u)
  also have "\<dots> = ParseDuration_loop orig ?r2 (of_nat ?a2)"
    using s2 by (simp only: u)
  also have "\<dots> = ParseDuration_loop orig ?r3 (of_nat ?a3)"
    using s3 by (simp only: u)
  also have "\<dots> = ParseDuration_loop orig ?r4 (of_nat ?a4)"
    using s4 by (simp only: u)
  also have "\<dots> = ParseDuration_loop orig ?r5 (of_nat ?a5)"
    using s5 by (simp only: u)
  also have "\<dots> = ParseDuration_loop orig ?r6 (of_nat ?a6)"
    using s6 by (simp only: u)
  also have "\<dots> = ParseDuration_loop orig ?r7 (of_nat ?a7)"
    using s7 by (simp only: u mult_1_right)
  also note e
  finally show ?thesis
    by (simp only: append_Nil2)
qed

lemma split_nanos:
  "(n::nat) div 86400000000000 * 86400000000000 + n div 3600000000000 mod 24 * 3600000000000 +
   n div 60000000000 mod 60 * 60000000000 + n div 1000000000 mod 60 * 1000000000 +
   n div 1000000 mod 1000 * 1000000 + n div 1000 mod 1000 * 1000 + n mod 1000 = n"
proof -
  have "n mod (1000 * 1000) = 1000 * (n div 1000 mod 1000) + n mod 1000"
    by (rule mod_mult2_eq)
  then have e1: "n mod 1000000 = 1000 * (n div 1000 mod 1000) + n mod 1000"
    by simp
  have "n mod (1000000 * 1000) = 1000000 * (n div 1000000 mod 1000) + n mod 1000000"
    by (rule mod_mult2_eq)
  then have e2: "n mod 1000000000 = 1000000 * (n div 1000000 mod 1000) + n mod 1000000"
    by simp
  have "n mod (1000000000 * 60) = 1000000000 * (n div 1000000000 mod 60) + n mod 1000000000"
    by (rule mod_mult2_eq)
  then have e3: "n mod 60000000000 = 1000000000 * (n div 1000000000 mod 60) + n mod 1000000000"
    by simp
  have "n mod (60000000000 * 60) = 60000000000 * (n div 60000000000 mod 60) + n mod 60000000000"
    by (rule mod_mult2_eq)
  then have e4: "n mod 3600000000000 =
      60000000000 * (n div 60000000000 mod 60) + n mod 60000000000"
    by simp
  have "n mod (3600000000000 * 24) =
      3600000000000 * (n div 3600000000000 mod 24) + n mod 3600000000000"
    by (rule mod_mult2_eq)
  then have e5: "n mod 86400000000000 =
      3600000000000 * (n div 3600000000000 mod 24) + n mod 3600000000000"
    by simp
  have e6: "n = 86400000000000 * (n div 86400000000000) + n mod 86400000000000"
    by simp
  from e1 e2 e3 e4 e5 e6 show ?thesis
    by linarith
qed

lemma FormatDuration_nonneg:
  assumes "sint d = int n" and "d \<noteq> 0"
  shows "FormatDuration d =
     tok (n div 86400000000000) ''d'' @ tok (n div 3600000000000 mod 24) ''h'' @
     tok (n div 60000000000 mod 60) ''m'' @ tok (n div 1000000000 mod 60) ''s'' @
     tok (n div 1000000 mod 1000) ''ms'' @
     tok (n div 1000 mod 1000) [CHR 0xC2, CHR 0xB5, CHR ''s''] @ tok (n mod 1000) ''ns''"
  using assms(2)
  by (simp add: FormatDuration_def formatHigh_nonneg [OF assms(1)] formatLow_nonneg [OF assms(1)]
      flatten_high flatten_low)

lemma startsOK_tok_last: "startsOK (tok k u)"
  using startsOK_tok [of "[]" k u] by (simp add: startsOK_def)

lemma ParseDuration_zero_s: "ParseDuration ''0s'' = Inr 0"
  by (simp add: ParseDuration_def consumeSign_simps lex_eval)

lemma roundtrip_nonneg:
  assumes "0 \<le> sint d"
  shows "ParseDuration (FormatDuration d) = Inr d"
proof (cases "d = 0")
  case True
  then show ?thesis
    by (simp add: FormatDuration_def ParseDuration_zero_s)
next
  case False
  define n where "n = nat (sint d)"
  have sd: "sint d = int n"
    using assms by (simp add: n_def)
  have n63: "n < 2 ^ 63"
    using sint_bounds64 (2) [of d] sd by simp
  have "d = word_of_int (sint d)"
    by simp
  also have "\<dots> = word_of_int (int n)"
    by (simp only: sd)
  finally have dn: "of_nat n = d"
    by simp
  let ?s = "FormatDuration d"
  let ?sum = "n div 86400000000000 * 86400000000000 + n div 3600000000000 mod 24 * 3600000000000 +
     n div 60000000000 mod 60 * 60000000000 + n div 1000000000 mod 60 * 1000000000 +
     n div 1000000 mod 1000 * 1000000 + n div 1000 mod 1000 * 1000 + n mod 1000"
  have s: "?s = tok (n div 86400000000000) ''d'' @ tok (n div 3600000000000 mod 24) ''h'' @
     tok (n div 60000000000 mod 60) ''m'' @ tok (n div 1000000000 mod 60) ''s'' @
     tok (n div 1000000 mod 1000) ''ms'' @
     tok (n div 1000 mod 1000) [CHR 0xC2, CHR 0xB5, CHR ''s''] @ tok (n mod 1000) ''ns''"
    using sd False by (rule FormatDuration_nonneg)
  have "?sum \<le> 2 ^ 63"
    using n63 by (simp only: split_nanos)
  then have "ParseDuration_loop ?s ?s 0 = Inr (of_nat ?sum)"
    unfolding s by (rule loop_canonical)
  then have loop: "ParseDuration_loop ?s ?s 0 = Inr d"
    by (simp only: split_nanos dn)
  have ok: "startsOK ?s"
    unfolding s by (intro startsOK_tok startsOK_tok_last)
  have ne: "?s \<noteq> []"
  proof
    assume "?s = []"
    with loop have "ParseDuration_loop [] [] 0 = Inr d"
      by simp
    with False show False
      by (simp add: ParseDuration_loop.simps)
  qed
  then obtain c t where ct: "?s = c # t"
    by (cases ?s) auto
  with ok have "isDigit c"
    by (simp add: startsOK_def)
  then have "c \<noteq> CHR ''-''" "c \<noteq> CHR ''+''"
    by (auto simp: isDigit_def)
  then have sign: "consumeSign ?s = (False, ?s)"
    by (simp add: ct consumeSign_simps)
  have nz: "?s \<noteq> ''0''"
  proof
    assume z: "?s = ''0''"
    have "ParseDuration_loop ''0'' ''0'' 0 = Inl (MissingUnit ''0'')"
      by (simp add: lex_eval)
    with loop z show False
      by simp
  qed
  have "n < 2 ^ 64"
    using n63 by simp
  then have "unat (of_nat n :: uint64) = n"
    by (rule unat_of_nat64)
  then have "unat d = n"
    by (simp only: dn)
  with n63 have "\<not> d > 2 ^ 63 - 1"
    by (simp add: word_less_nat_alt)
  with sign ne nz loop show ?thesis
    by (simp add: ParseDuration_def)
qed

section \<open>Round trip\<close>

text \<open>
  C1. For every duration \<open>d\<close> from 0 to \<open>2^63 - 1\<close> nanoseconds, the non-negative
  \<open>int64\<close>, parsing the canonical form of \<open>d\<close> succeeds and gives \<open>d\<close> back.
\<close>

theorem ParseDuration_FormatDuration:
  assumes "0 \<le>s d"
  shows "ParseDuration (FormatDuration d) = Inr d"
proof -
  from assms have "0 \<le> sint d"
    by (simp add: word_sle_eq)
  then show ?thesis
    by (rule roundtrip_nonneg)
qed

theorem ParseDuration_FormatDuration_witness:
  "0 \<le>s (2 ^ 63 - 1 :: Duration) \<and>
   FormatDuration (2 ^ 63 - 1) =
     ''106751d23h47m16s854ms775'' @ [CHR 0xC2, CHR 0xB5, CHR ''s''] @ ''807ns'' \<and>
   ParseDuration (FormatDuration (2 ^ 63 - 1)) = Inr (2 ^ 63 - 1)"
proof -
  have nonneg: "0 \<le>s (2 ^ 63 - 1 :: Duration)"
    by (simp add: word_sle_eq)
  have "sint (2 ^ 63 - 1 :: Duration) = int 9223372036854775807"
    and "(2 ^ 63 - 1 :: Duration) \<noteq> 0"
    by simp_all
  from FormatDuration_nonneg [OF this]
  have "FormatDuration (2 ^ 63 - 1) =
      ''106751d23h47m16s854ms775'' @ [CHR 0xC2, CHR 0xB5, CHR ''s''] @ ''807ns''"
    by (simp add: tok_def decimal.simps char_of_digits)
  with nonneg ParseDuration_FormatDuration [OF nonneg] show ?thesis
    by simp
qed

end
